theory Spec2Isabelle
  imports Main "HOL-Library.Word"
begin

section \<open>The ttp timed-trace-point recorder: data model\<close>

text \<open>
  The C integers of the driver keep their widths: \<open>unsigned char\<close> is an 8-bit word,
  \<open>unsigned int\<close> a 32-bit word, \<open>uint64_t\<close> a 64-bit word. Arithmetic on them wraps.
\<close>

type_synonym u8 = "8 word"
type_synonym u32 = "32 word"
type_synonym u64 = "64 word"

text \<open>\<^verbatim>\<open>struct event { unsigned int id; uint64_t abstime; }\<close>\<close>

record event =
  event_id :: u32
  abstime :: u64

text \<open>
  \<^verbatim>\<open>struct ttp_storage { uint64_t eventcount; struct event *events; }\<close>.
  The pointer \<open>events\<close> is \<open>None\<close> when it is NULL, otherwise the array it points to.
\<close>

record ttp_storage =
  eventcount :: u64
  events :: "event list option"

text \<open>The outcomes of the file operations: the errno values the driver returns.\<close>

datatype errno = ENOMEM | EBUSY | ENOSPC | EINVAL | EFAULT

text \<open>
  A memory access the C code performs outside of an object (undefined behaviour in C)
  is a value of the model.
\<close>

datatype fault = NullDeref | OutOfBounds

text \<open>
  The module's global variables. \<open>storage\<close> is \<open>None\<close> when the pointer is NULL,
  otherwise the table of per-cpu storages it points to. \<open>ttp_clock\<close> is a
  \<open>clockid_t\<close>, an \<open>int\<close>.
\<close>

record ttp_state =
  max_events :: u32
  ttp_enabled :: bool
  ttp_cpus :: u32
  storage :: "ttp_storage list option"
  ttp_clock :: int
  suppress_error :: u8

definition CLOCK_REALTIME :: int where
  "CLOCK_REALTIME = 0"

definition CLOCK_MONOTONIC :: int where
  "CLOCK_MONOTONIC = 1"

definition NSEC_PER_SEC :: u64 where
  "NSEC_PER_SEC = 1000000000"

definition MAX_INPUT_SIZE :: nat where
  "MAX_INPUT_SIZE = 31"

section \<open>Capture: \<open>ttp_emit\<close>\<close>

text \<open>
  What one call of \<open>ttp_emit\<close> reads from its environment: the number of the
  processor it runs on (\<open>smp_processor_id()\<close>), the reading of the real-time clock
  (\<open>ktime_get_real_ts64\<close>) and the reading of the monotonic clock after the
  adjustment to the time namespace (\<open>ktime_get_ts64\<close>, \<open>timens_add_monotonic\<close>).
\<close>

record timespec64 =
  tv_sec :: u64
  tv_nsec :: u64

record emit_env =
  smp_processor_id :: u32
  real_ts :: timespec64
  monotonic_ts :: timespec64

text \<open>The \<open>switch (ttp_clock)\<close>: the time read, or \<open>None\<close> in the default branch.\<close>

definition read_clock :: "int \<Rightarrow> emit_env \<Rightarrow> timespec64 option" where
  "read_clock clk env =
     (if clk = CLOCK_REALTIME then Some (real_ts env)
      else if clk = CLOCK_MONOTONIC then Some (monotonic_ts env)
      else None)"

text \<open>The record \<open>ttp_emit\<close> builds: \<open>ev.id = id; ev.abstime = tp.tv_sec * NSEC_PER_SEC + tp.tv_nsec\<close>.\<close>

definition make_event :: "timespec64 \<Rightarrow> u32 \<Rightarrow> event" where
  "make_event tp ident = \<lparr>event_id = ident, abstime = tv_sec tp * NSEC_PER_SEC + tv_nsec tp\<rparr>"

text \<open>
  \<open>ttp_emit\<close> returns the new state of the globals and the lines it has written to
  the kernel log. The store \<open>stor->events[stor->eventcount++] = ev\<close> is a fault when
  a pointer is NULL or the index lies outside of the array.
\<close>

definition ttp_emit :: "ttp_state \<Rightarrow> emit_env \<Rightarrow> u32 \<Rightarrow> fault + (ttp_state \<times> string list)" where
  "ttp_emit s env ident =
     (if \<not> ttp_enabled s then Inr (s, [])
      else case read_clock (ttp_clock s) env of
        None \<Rightarrow> Inr (s, [''tpp: FATAL: unknown clock''])
      | Some tp \<Rightarrow>
          let ev = make_event tp ident;
              cpu_id = smp_processor_id env
          in if cpu_id \<ge> ttp_cpus s then Inr (s, [''CPU id''])
             else case storage s of
               None \<Rightarrow> Inl NullDeref
             | Some tab \<Rightarrow>
                 if unat cpu_id \<ge> length tab then Inl OutOfBounds
                 else
                   let stor = tab ! unat cpu_id
                   in if eventcount stor \<ge> ucast (max_events s) then
                        Inr (s\<lparr>suppress_error := suppress_error s + 1\<rparr>,
                             if suppress_error s = 0 then [''Max Events reached''] else [])
                      else case events stor of
                        None \<Rightarrow> Inl NullDeref
                      | Some arr \<Rightarrow>
                          if unat (eventcount stor) \<ge> length arr then Inl OutOfBounds
                          else
                            let stor' = \<lparr>eventcount = eventcount stor + 1,
                                         events = Some (list_update arr (unat (eventcount stor)) ev)\<rparr>
                            in Inr (s\<lparr>storage := Some (list_update tab (unat cpu_id) stor')\<rparr>, []))"

text \<open>
  A sequence of calls of \<open>ttp_emit\<close>, each with its environment and its event id; the
  log lines of the calls are collected in order.
\<close>

fun emit_all :: "ttp_state \<Rightarrow> (emit_env \<times> u32) list \<Rightarrow> fault + (ttp_state \<times> string list)" where
  "emit_all s [] = Inr (s, [])"
| "emit_all s ((env, ident) # cs) =
     (case ttp_emit s env ident of
        Inl f \<Rightarrow> Inl f
      | Inr (s', msgs) \<Rightarrow>
          (case emit_all s' cs of
             Inl f \<Rightarrow> Inl f
           | Inr (s'', msgs') \<Rightarrow> Inr (s'', msgs @ msgs')))"

text \<open>
  The states the module is in once \<open>ttp_init\<close> has returned 0: the table has one
  storage per counted cpu, every storage owns an array of \<open>max_events\<close> slots and
  has recorded at most that many events, and the clock is one of the two the command
  endpoint can select.
\<close>

definition shard_ok :: "u32 \<Rightarrow> ttp_storage \<Rightarrow> bool" where
  "shard_ok cap stor =
     (case events stor of
        None \<Rightarrow> False
      | Some arr \<Rightarrow> length arr = unat cap \<and> eventcount stor \<le> ucast cap)"

definition state_ok :: "ttp_state \<Rightarrow> bool" where
  "state_ok s =
     ((case storage s of
         None \<Rightarrow> False
       | Some tab \<Rightarrow> length tab = unat (ttp_cpus s) \<and> list_all (shard_ok (max_events s)) tab)
      \<and> (ttp_clock s = CLOCK_REALTIME \<or> ttp_clock s = CLOCK_MONOTONIC))"

text \<open>
  The record a call leaves in its slot when the clock is one of the two known ones: the
  id of the call and the reading of the selected clock.
\<close>

definition recorded :: "int \<Rightarrow> emit_env \<times> u32 \<Rightarrow> event" where
  "recorded clk call =
     make_event (if clk = CLOCK_REALTIME then real_ts (fst call) else monotonic_ts (fst call))
       (snd call)"

section \<open>Drain: \<open>ttp_read\<close>\<close>

text \<open>\<^verbatim>\<open>struct fpos { unsigned int cpu; uint64_t event; }\<close>, the cursor of an open file.\<close>

record fpos =
  cpu :: u32
  event :: u64

text \<open>
  Modelled from the spec: \<open>snprintf\<close> is the kernel's library function and is not
  among the sources. The line format is \<open>"%u,%u,%llu\n"\<close>: three unsigned numbers in
  decimal without padding, separated by commas, and a newline. \<open>snprintf\<close> stores at most
  \<open>size - 1\<close> characters and returns the length of the whole formatted text.
\<close>

definition digit_char :: "nat \<Rightarrow> char" where
  "digit_char d = ''0123456789'' ! d"

fun dec :: "nat \<Rightarrow> string" where
  "dec n = (if n < 10 then [digit_char n] else dec (n div 10) @ [digit_char (n mod 10)])"

declare dec.simps [simp del]

definition format_line :: "u32 \<Rightarrow> u32 \<Rightarrow> u64 \<Rightarrow> string" where
  "format_line ident c t = dec (unat ident) @ '','' @ dec (unat c) @ '','' @ dec (unat t) @ [CHR 0x0A]"

definition snprintf :: "nat \<Rightarrow> u32 \<Rightarrow> u32 \<Rightarrow> u64 \<Rightarrow> string \<times> nat" where
  "snprintf sz ident c t =
     (take (sz - 1) (format_line ident c t), length (format_line ident c t))"

text \<open>
  The loop at the label \<open>again\<close>: it returns the cursor it stops at and whether it
  stops at the end of the data (\<open>return 0\<close>). Indexing the table beyond its end is a
  fault. \<open>fpos->cpu++\<close> wraps, so the distance to \<open>ttp_cpus\<close> shrinks in every round.
\<close>

function ttp_read_again :: "ttp_state \<Rightarrow> ttp_storage list \<Rightarrow> fpos \<Rightarrow> fault + (fpos \<times> bool)" where
  "ttp_read_again s tab fp =
     (if cpu fp = ttp_cpus s then Inr (fp, True)
      else if unat (cpu fp) \<ge> length tab then Inl OutOfBounds
      else if event fp = eventcount (tab ! unat (cpu fp))
           then ttp_read_again s tab \<lparr>cpu = cpu fp + 1, event = 0\<rparr>
           else Inr (fp, False))"
  by pat_completeness auto
termination
proof (relation "measure (\<lambda>(s, tab, fp). unat (ttp_cpus s - cpu fp))")
  show "wf (measure (\<lambda>(s, tab, fp). unat (ttp_cpus s - cpu fp)))" by simp
next
  fix s :: ttp_state and tab :: "ttp_storage list" and fp :: fpos
  assume ne: "cpu fp \<noteq> ttp_cpus s"
  then have nz: "ttp_cpus s - cpu fp \<noteq> 0" by simp
  have eq: "ttp_cpus s - (cpu fp + 1) = (ttp_cpus s - cpu fp) - 1" by simp
  have "unat (ttp_cpus s - cpu fp - 1) < unat (ttp_cpus s - cpu fp)"
    using nz by (simp add: unat_minus_one unat_gt_0)
  then have "unat (ttp_cpus s - (cpu fp + 1)) < unat (ttp_cpus s - cpu fp)"
    by (simp only: eq)
  then show "((s, tab, \<lparr>cpu = cpu fp + 1, event = 0\<rparr>), (s, tab, fp))
      \<in> measure (\<lambda>(s, tab, fp). unat (ttp_cpus s - cpu fp))"
    by (simp only: in_measure prod.case fpos.simps)
qed

declare ttp_read_again.simps [simp del]

text \<open>
  \<open>ttp_read\<close> with the cursor \<open>fpos\<close> of the file, the size \<open>sz\<close> of the user's buffer and
  whether \<open>copy_to_user\<close> can write to it. It returns the cursor it leaves and either
  the errno or the bytes handed to the user (their number is the return value; no bytes
  is the return value 0). \<open>tmp\<close> has 128 bytes; copying more than that out of it is a
  fault.
\<close>

definition ttp_read :: "ttp_state \<Rightarrow> fpos \<Rightarrow> nat \<Rightarrow> bool \<Rightarrow> fault + ((errno + string) \<times> fpos)" where
  "ttp_read s fp sz out_ok =
     (case storage s of
        None \<Rightarrow> Inr (Inl ENOMEM, fp)
      | Some tab \<Rightarrow>
          if ttp_enabled s then Inr (Inl EBUSY, fp)
          else if sz < 128 then Inr (Inl ENOSPC, fp)
          else case ttp_read_again s tab fp of
            Inl f \<Rightarrow> Inl f
          | Inr (fp', True) \<Rightarrow> Inr (Inr [], fp')
          | Inr (fp', False) \<Rightarrow>
              (case events (tab ! unat (cpu fp')) of
                 None \<Rightarrow> Inl NullDeref
               | Some arr \<Rightarrow>
                   if unat (event fp') \<ge> length arr then Inl OutOfBounds
                   else
                     let ev = arr ! unat (event fp');
                         (tmp, ret) = snprintf 128 (event_id ev) (cpu fp') (abstime ev)
                     in if ret > 128 then Inl OutOfBounds
                        else Inr (if out_ok then Inr (take ret (tmp @ [CHR 0x00])) else Inl EINVAL,
                                  fp'\<lparr>event := event fp' + 1\<rparr>)))"

text \<open>
  A drain session: successive calls of \<open>ttp_read\<close> on one open file while the globals
  stay as they are. Each call has its buffer size and whether the buffer can be written.
  The results of the calls are collected in order.
\<close>

fun read_all :: "ttp_state \<Rightarrow> fpos \<Rightarrow> (nat \<times> bool) list \<Rightarrow> fault + ((errno + string) list \<times> fpos)" where
  "read_all s fp [] = Inr ([], fp)"
| "read_all s fp ((sz, out_ok) # rs) =
     (case ttp_read s fp sz out_ok of
        Inl f \<Rightarrow> Inl f
      | Inr (r, fp') \<Rightarrow>
          (case read_all s fp' rs of
             Inl f \<Rightarrow> Inl f
           | Inr (res, fp'') \<Rightarrow> Inr (r # res, fp'')))"

text \<open>
  The slot a call of \<open>ttp_read\<close> formats: the cursor at which the loop \<open>again\<close> leaves
  for \<open>snprintf\<close>, if the call gets that far.
\<close>

definition read_slot :: "ttp_state \<Rightarrow> fpos \<Rightarrow> nat \<Rightarrow> fpos option" where
  "read_slot s fp sz =
     (case storage s of
        None \<Rightarrow> None
      | Some tab \<Rightarrow>
          if ttp_enabled s \<or> sz < 128 then None
          else case ttp_read_again s tab fp of
            Inr (fp', False) \<Rightarrow> Some fp'
          | _ \<Rightarrow> None)"

text \<open>The slots the calls of a drain session format, in order.\<close>

fun session_slots :: "ttp_state \<Rightarrow> fpos \<Rightarrow> (nat \<times> bool) list \<Rightarrow> fpos list" where
  "session_slots s fp [] = []"
| "session_slots s fp ((sz, out_ok) # rs) =
     (case ttp_read s fp sz out_ok of
        Inl f \<Rightarrow> []
      | Inr (r, fp') \<Rightarrow>
          (case read_slot s fp sz of
             None \<Rightarrow> session_slots s fp' rs
           | Some slot \<Rightarrow> slot # session_slots s fp' rs))"

text \<open>
  What a complete drain has to deliver: for every storage of the table in index order,
  the lines of its first \<open>eventcount\<close> slots in slot order.
\<close>

definition shard_lines :: "nat \<Rightarrow> ttp_storage \<Rightarrow> string list" where
  "shard_lines i stor =
     (case events stor of
        None \<Rightarrow> []
      | Some arr \<Rightarrow>
          map (\<lambda>ev. format_line (event_id ev) (of_nat i) (abstime ev))
            (take (unat (eventcount stor)) arr))"

definition lines_from :: "ttp_storage list \<Rightarrow> nat \<Rightarrow> nat \<Rightarrow> string list" where
  "lines_from tab c e =
     (if c < length tab
      then drop e (shard_lines c (tab ! c)) @ concat (map (\<lambda>i. shard_lines i (tab ! i)) [Suc c..<length tab])
      else [])"

definition all_lines :: "ttp_state \<Rightarrow> string list" where
  "all_lines s =
     (case storage s of
        None \<Rightarrow> []
      | Some tab \<Rightarrow> concat (map (\<lambda>i. shard_lines i (tab ! i)) [0..<length tab]))"

text \<open>
  The order of the cursors: by cpu first, by event within a cpu.
\<close>

definition fpos_less :: "fpos \<Rightarrow> fpos \<Rightarrow> bool" where
  "fpos_less a b = (unat (cpu a) < unat (cpu b) \<or> (cpu a = cpu b \<and> unat (event a) < unat (event b)))"

text \<open>
  The cursors a session that starts at \<open>(0, 0)\<close> passes through while the globals stay
  as they are: at a cpu of the table and not beyond its \<open>eventcount\<close>, or at the end.
\<close>

definition cursor_ok :: "ttp_state \<Rightarrow> ttp_storage list \<Rightarrow> fpos \<Rightarrow> bool" where
  "cursor_ok s tab fp =
     (cpu fp = ttp_cpus s \<or> (cpu fp < ttp_cpus s \<and> event fp \<le> eventcount (tab ! unat (cpu fp))))"

section \<open>Control: \<open>ttp_write\<close>\<close>

text \<open>
  Modelled from the spec: \<open>isspace\<close>, \<open>strim\<close> and \<open>strncmp\<close> are the kernel's
  library functions and are not among the sources. A C string is the list of its
  characters before the terminating NUL. \<open>isspace\<close> holds for the characters 9 to 13, for
  the blank and for the character 160. \<open>strim\<close> cuts the trailing white space off the
  buffer in place and returns a pointer behind the leading white space: the first
  component is the buffer afterwards, the second the string at the returned pointer.
  \<open>strncmp\<close> compares at most \<open>count\<close> characters and stops behind a NUL the two strings
  share.
\<close>

definition isspace :: "char \<Rightarrow> bool" where
  "isspace c = ((9 \<le> (of_char c :: nat) \<and> (of_char c :: nat) \<le> 13) \<or> (of_char c :: nat) = 32
                 \<or> (of_char c :: nat) = 160)"

definition strim :: "string \<Rightarrow> string \<times> string" where
  "strim cs = (let t = rev (dropWhile isspace (rev cs)) in (t, dropWhile isspace t))"

fun strncmp :: "string \<Rightarrow> string \<Rightarrow> nat \<Rightarrow> int" where
  "strncmp cs ct 0 = 0"
| "strncmp cs ct (Suc count) =
     (let c1 = (case cs of [] \<Rightarrow> CHR 0x00 | c # _ \<Rightarrow> c);
          c2 = (case ct of [] \<Rightarrow> CHR 0x00 | c # _ \<Rightarrow> c)
      in if c1 \<noteq> c2 then (if (of_char c1 :: nat) < of_char c2 then - 1 else 1)
         else if c1 = CHR 0x00 then 0
         else strncmp (tl cs) (tl ct) count)"

text \<open>
  The loop of the reset command, \<open>for (i = 0; i < ttp_cpus; i++) storage[i].eventcount = 0\<close>,
  from the index \<open>i\<close> on. Indexing the table beyond its end is a fault.
\<close>

function reset_loop :: "u32 \<Rightarrow> u32 \<Rightarrow> ttp_storage list \<Rightarrow> fault + ttp_storage list" where
  "reset_loop i n tab =
     (if i < n
      then (if unat i \<ge> length tab then Inl OutOfBounds
            else reset_loop (i + 1) n (list_update tab (unat i) ((tab ! unat i)\<lparr>eventcount := 0\<rparr>)))
      else Inr tab)"
  by pat_completeness auto
termination
proof (relation "measure (\<lambda>(i, n, tab). unat n - unat i)")
  show "wf (measure (\<lambda>(i, n, tab). unat n - unat i))" by simp
next
  fix i n :: u32 and tab :: "ttp_storage list"
  assume lt: "i < n"
  then have "unat (i + 1) = Suc (unat i)"
    by (metis add.commute unatSuc max_word_wrap word_order.extremum_strict)
  moreover have "unat i < unat n" using lt by (simp add: word_less_nat_alt)
  ultimately show "((i + 1, n, list_update tab (unat i) ((tab ! unat i)\<lparr>eventcount := 0\<rparr>)), (i, n, tab))
      \<in> measure (\<lambda>(i, n, tab). unat n - unat i)"
    by simp
qed

declare reset_loop.simps [simp del]

text \<open>
  The section of \<open>ttp_write\<close> between \<open>spin_lock\<close> and \<open>spin_unlock\<close>: the chain of
  comparisons of the buffer \<open>input\<close> with the commands, each bounded by \<open>len\<close>. It
  returns the errno or \<open>len\<close>, the new state of the globals and the lines written to
  the kernel log.
\<close>

definition ttp_command :: "ttp_state \<Rightarrow> ttp_storage list \<Rightarrow> string \<Rightarrow> nat
    \<Rightarrow> fault + ((errno + nat) \<times> ttp_state \<times> string list)" where
  "ttp_command s tab input len =
     (if strncmp input ''start'' len = 0 then
        (if ttp_enabled s then Inr (Inl EBUSY, s, [])
         else Inr (Inr len, s\<lparr>ttp_enabled := True\<rparr>, [''ttp: Armed'']))
      else if strncmp input ''stop'' len = 0 then
        Inr (Inr len, s\<lparr>ttp_enabled := False\<rparr>, [''ttp: Stopped''])
      else if strncmp input ''reset'' len = 0 then
        (if ttp_enabled s then Inr (Inl EINVAL, s, [])
         else case reset_loop 0 (ttp_cpus s) tab of
           Inl f \<Rightarrow> Inl f
         | Inr tab' \<Rightarrow>
             Inr (Inr len, s\<lparr>storage := Some tab'\<rparr>, [''ttp: Reset event storage'']))
      else if strncmp input ''0'' len = 0 then
        (if ttp_enabled s then Inr (Inl EBUSY, s, [])
         else Inr (Inr len, s\<lparr>ttp_clock := CLOCK_REALTIME\<rparr>, [''ttp: using CLOCK_REALTIME'']))
      else if strncmp input ''1'' len = 0 then
        (if ttp_enabled s then Inr (Inl EBUSY, s, [])
         else Inr (Inr len, s\<lparr>ttp_clock := CLOCK_MONOTONIC\<rparr>, [''ttp: using CLOCK_MONOTONIC'']))
      else Inr (Inl EINVAL, s, []))"

text \<open>
  \<open>ttp_write\<close> with the bytes \<open>data\<close> the user passes (\<open>len\<close> is their number) and
  whether \<open>copy_from_user\<close> can read them. \<open>len\<close> is cut to \<open>MAX_INPUT_SIZE\<close>, the bytes
  are copied to \<open>input\<close> and terminated by a NUL, and \<open>strim\<close> works on \<open>input\<close>. The
  value \<open>strim\<close> returns is not used: the comparisons read the buffer \<open>input\<close>.
\<close>

definition ttp_write :: "ttp_state \<Rightarrow> string \<Rightarrow> bool \<Rightarrow> fault + ((errno + nat) \<times> ttp_state \<times> string list)" where
  "ttp_write s data in_ok =
     (case storage s of
        None \<Rightarrow> Inr (Inl ENOMEM, s, [])
      | Some tab \<Rightarrow>
          let len = (if length data > MAX_INPUT_SIZE then MAX_INPUT_SIZE else length data)
          in if \<not> in_ok then Inr (Inl EFAULT, s, [])
             else
               let input = fst (strim (takeWhile (\<lambda>c. c \<noteq> CHR 0x00) (take len data)))
               in ttp_command s tab input len)"

section \<open>Module initialisation and exit\<close>

text \<open>
  The memory blocks the module holds: the table of storages (\<open>kzalloc\<close>) and the event
  array of a cpu (\<open>kvzalloc\<close>). The ledger of a run lists the blocks that have been
  allocated and not yet freed.
\<close>

datatype block = Table | Events nat

text \<open>
  The loop of \<open>ttp_init\<close> over the cpus from index \<open>i\<close> on. \<open>ev_ok i\<close> tells whether the
  allocation of the array of cpu \<open>i\<close> succeeds. On a failure the loop returns at once:
  the result is the table as filled so far, the ledger, and the index that failed.
  \<open>ttp_init\<close> enters the loop with a table of \<open>n\<close> zeroed storages, so every index
  below \<open>n\<close> lies inside the table.
\<close>

function init_loop :: "u32 \<Rightarrow> u32 \<Rightarrow> u32 \<Rightarrow> (nat \<Rightarrow> bool) \<Rightarrow> ttp_storage list \<Rightarrow> block list
    \<Rightarrow> ttp_storage list \<times> block list \<times> nat option" where
  "init_loop i n cap ev_ok tab live =
     (if i < n
      then (if ev_ok (unat i)
            then init_loop (i + 1) n cap ev_ok
                   (list_update tab (unat i)
                      ((tab ! unat i)\<lparr>events := Some (replicate (unat cap) \<lparr>event_id = 0, abstime = 0\<rparr>)\<rparr>))
                   (live @ [Events (unat i)])
            else (tab, live, Some (unat i)))
      else (tab, live, None))"
  by pat_completeness auto
termination
proof (relation "measure (\<lambda>(i, n, cap, ev_ok, tab, live). unat n - unat i)")
  show "wf (measure (\<lambda>(i, n, cap, ev_ok, tab, live). unat n - unat i))" by simp
next
  fix i n cap :: u32 and ev_ok :: "nat \<Rightarrow> bool" and tab :: "ttp_storage list" and live :: "block list"
  assume lt: "i < n"
  then have "unat (i + 1) = Suc (unat i)"
    by (metis add.commute unatSuc max_word_wrap word_order.extremum_strict)
  moreover have "unat i < unat n" using lt by (simp add: word_less_nat_alt)
  ultimately show "((i + 1, n, cap, ev_ok,
        list_update tab (unat i)
          ((tab ! unat i)\<lparr>events := Some (replicate (unat cap) \<lparr>event_id = 0, abstime = 0\<rparr>)\<rparr>),
        live @ [Events (unat i)]), (i, n, cap, ev_ok, tab, live))
      \<in> measure (\<lambda>(i, n, cap, ev_ok, tab, live). unat n - unat i)"
    by simp
qed

declare init_loop.simps [simp del]

text \<open>
  The globals when the module is loaded with the parameter \<open>max_events\<close>: the static
  variables are zero.
\<close>

definition initial_state :: "u32 \<Rightarrow> ttp_state" where
  "initial_state cap =
     \<lparr>max_events = cap, ttp_enabled = False, ttp_cpus = 0, storage = None,
      ttp_clock = 0, suppress_error = 0\<rparr>"

text \<open>
  \<open>ttp_init\<close> with the value of the module parameter, the number of present cpus
  (\<open>cpumask_weight(cpu_present_mask)\<close>), whether the allocation of the table succeeds,
  which allocations of event arrays succeed, and the result of \<open>misc_register\<close>
  (\<open>None\<close> is 0). It returns its return value (\<open>None\<close> is 0), the globals and the ledger
  of allocated blocks. There is no call of a free function in \<open>ttp_init\<close>.
\<close>

definition ttp_init :: "u32 \<Rightarrow> u32 \<Rightarrow> bool \<Rightarrow> (nat \<Rightarrow> bool) \<Rightarrow> errno option
    \<Rightarrow> errno option \<times> ttp_state \<times> block list" where
  "ttp_init cap present table_ok ev_ok misc_err =
     (let s = (initial_state cap)\<lparr>ttp_cpus := present\<rparr>
      in if \<not> table_ok then (Some ENOMEM, s, [])
         else
           case init_loop 0 present cap ev_ok
                  (replicate (unat present) \<lparr>eventcount = 0, events = None\<rparr>) [Table] of
             (tab, live, Some i) \<Rightarrow> (Some ENOMEM, s\<lparr>storage := Some tab\<rparr>, live)
           | (tab, live, None) \<Rightarrow>
               (case misc_err of
                  Some err \<Rightarrow> (Some err, s\<lparr>storage := Some tab\<rparr>, live)
                | None \<Rightarrow> (None, s\<lparr>storage := Some tab\<rparr>, live)))"

text \<open>
  \<open>ttp_exit\<close> frees the array of every cpu and then the table; it changes the ledger
  only.
\<close>

definition ttp_exit :: "ttp_state \<Rightarrow> block list \<Rightarrow> block list" where
  "ttp_exit s live =
     (case storage s of
        None \<Rightarrow> live
      | Some tab \<Rightarrow>
          filter (\<lambda>b. b \<noteq> Table \<and> b \<notin> set (map Events [0..<unat (ttp_cpus s)])) live)"

section \<open>Example states\<close>

definition env0 :: "u64 \<Rightarrow> emit_env" where
  "env0 t = \<lparr>smp_processor_id = 0, real_ts = \<lparr>tv_sec = 0, tv_nsec = t\<rparr>,
              monotonic_ts = \<lparr>tv_sec = 0, tv_nsec = t\<rparr>\<rparr>"

definition blank :: event where
  "blank = \<lparr>event_id = 0, abstime = 0\<rparr>"

text \<open>One cpu, four slots, nothing recorded, capture armed.\<close>

definition armed_empty :: ttp_state where
  "armed_empty =
     \<lparr>max_events = 4, ttp_enabled = True, ttp_cpus = 1,
      storage = Some [\<lparr>eventcount = 0, events = Some [blank, blank, blank, blank]\<rparr>],
      ttp_clock = 0, suppress_error = 0\<rparr>"

text \<open>One cpu, one slot, the slot taken, capture armed, nothing dropped so far.\<close>

definition armed_full :: ttp_state where
  "armed_full =
     \<lparr>max_events = 1, ttp_enabled = True, ttp_cpus = 1,
      storage = Some [\<lparr>eventcount = 1, events = Some [\<lparr>event_id = 5, abstime = 100\<rparr>]\<rparr>],
      ttp_clock = 0, suppress_error = 0\<rparr>"

text \<open>
  Two cpus, four slots each; cpu 0 has recorded the ids 5 and 7, cpu 1 nothing; capture
  stopped.
\<close>

definition stopped_two :: ttp_state where
  "stopped_two =
     \<lparr>max_events = 4, ttp_enabled = False, ttp_cpus = 2,
      storage = Some [\<lparr>eventcount = 2,
                        events = Some [\<lparr>event_id = 5, abstime = 100\<rparr>, \<lparr>event_id = 7, abstime = 200\<rparr>,
                                       blank, blank]\<rparr>,
                      \<lparr>eventcount = 0, events = Some [blank, blank, blank, blank]\<rparr>],
      ttp_clock = 0, suppress_error = 0\<rparr>"

text \<open>The state \<open>stopped_two\<close> after the command \<open>reset\<close>: both counts are 0, the slots are as before.\<close>

definition stopped_two_reset :: ttp_state where
  "stopped_two_reset =
     \<lparr>max_events = 4, ttp_enabled = False, ttp_cpus = 2,
      storage = Some [\<lparr>eventcount = 0,
                        events = Some [\<lparr>event_id = 5, abstime = 100\<rparr>, \<lparr>event_id = 7, abstime = 200\<rparr>,
                                       blank, blank]\<rparr>,
                      \<lparr>eventcount = 0, events = Some [blank, blank, blank, blank]\<rparr>],
      ttp_clock = 0, suppress_error = 0\<rparr>"

section \<open>Words\<close>

text \<open>Incrementing a counter below a bound does not wrap; widening keeps the value.\<close>

lemma word_inc_unat: "(c::'a::len word) < m \<Longrightarrow> unat (c + 1) = Suc (unat c)"
  by (metis add.commute unatSuc max_word_wrap word_order.extremum_strict)

lemma unat_ucast_u32_u64: "unat (ucast (m::u32) :: u64) = unat m"
proof -
  have "unat m < 2 ^ 32" using unsigned_less [of m] by simp
  then have "unat m < 18446744073709551616" by simp
  then show ?thesis by (simp add: unsigned_ucast_eq take_bit_eq_mod)
qed

section \<open>Properties of the capture path\<close>

text \<open>
  One call on a shard that is not full stores the record at \<open>events[eventcount]\<close> and
  increments \<open>eventcount\<close>; a sequence of such calls on a shard that holds \<open>cnt\<close>
  records fills the slots from \<open>cnt\<close> on in the order of the calls.
\<close>

lemma ttp_emit_append:
  assumes "ttp_enabled s" "read_clock (ttp_clock s) env = Some tp"
    "smp_processor_id env < ttp_cpus s" "storage s = Some tab"
    "unat (smp_processor_id env) < length tab"
    "tab ! unat (smp_processor_id env) = stor"
    "eventcount stor < ucast (max_events s)"
    "events stor = Some arr" "unat (eventcount stor) < length arr"
  shows "ttp_emit s env ident =
     Inr (s\<lparr>storage := Some (list_update tab (unat (smp_processor_id env))
            \<lparr>eventcount = eventcount stor + 1,
             events = Some (list_update arr (unat (eventcount stor)) (make_event tp ident))\<rparr>)\<rparr>, [])"
proof -
  have a: "\<not> ttp_cpus s \<le> smp_processor_id env" using assms(3) by (simp add: not_le)
  have b: "\<not> ucast (max_events s) \<le> eventcount stor" using assms(7) by (simp add: not_le)
  have c: "\<not> length tab \<le> unat (smp_processor_id env)" using assms(5) by simp
  have d: "\<not> length arr \<le> unat (eventcount stor)" using assms(9) by simp
  show ?thesis
    unfolding ttp_emit_def Let_def
    using assms(1,2,4,6,8) a b c d by simp
qed

lemma read_clock_valid:
  "clk = CLOCK_REALTIME \<or> clk = CLOCK_MONOTONIC \<Longrightarrow>
   read_clock clk env = Some (if clk = CLOCK_REALTIME then real_ts env else monotonic_ts env)"
  by (auto simp: read_clock_def)

lemma emit_all_appends:
  assumes "ttp_enabled s"
    and "ttp_clock s = CLOCK_REALTIME \<or> ttp_clock s = CLOCK_MONOTONIC"
    and "c < ttp_cpus s"
    and "storage s = Some tab"
    and "unat c < length tab"
    and "tab ! unat c = \<lparr>eventcount = cnt, events = Some arr\<rparr>"
    and "length arr = unat (max_events s)"
    and "unat cnt + length calls \<le> unat (max_events s)"
    and "\<forall>call \<in> set calls. smp_processor_id (fst call) = c"
  shows "emit_all s calls =
     Inr (s\<lparr>storage := Some (list_update tab (unat c)
            \<lparr>eventcount = cnt + of_nat (length calls),
             events = Some (take (unat cnt) arr @ map (recorded (ttp_clock s)) calls
                              @ drop (unat cnt + length calls) arr)\<rparr>)\<rparr>, [])"
  using assms
proof (induction calls arbitrary: s tab cnt arr)
  case Nil
  have "list_update tab (unat c) \<lparr>eventcount = cnt, events = Some arr\<rparr> = tab"
    using Nil.prems(6) list_update_id [of tab "unat c"] by simp
  then show ?case using Nil.prems(4) by simp
next
  case (Cons call calls)
  obtain env ident where call: "call = (env, ident)" by (cases call)
  let ?k = "unat cnt"
  let ?tp = "if ttp_clock s = CLOCK_REALTIME then real_ts env else monotonic_ts env"
  let ?ev = "recorded (ttp_clock s) (env, ident)"
  have ev: "make_event ?tp ident = ?ev" by (simp add: recorded_def)
  let ?arr1 = "list_update arr ?k ?ev"
  let ?tab1 = "list_update tab (unat c) \<lparr>eventcount = cnt + 1, events = Some ?arr1\<rparr>"
  let ?s1 = "s\<lparr>storage := Some ?tab1\<rparr>"
  have env: "smp_processor_id env = c" using Cons.prems(9) call by simp
  have klt: "?k < unat (max_events s)" using Cons.prems(8) by simp
  then have cntlt: "cnt < ucast (max_events s)"
    by (simp add: word_less_nat_alt unat_ucast_u32_u64)
  have k1: "unat (cnt + 1) = Suc ?k" using cntlt by (rule word_inc_unat)
  have step: "ttp_emit s env ident = Inr (?s1, [])"
    using ttp_emit_append [of s env ?tp tab "\<lparr>eventcount = cnt, events = Some arr\<rparr>" arr ident]
      Cons.prems(1-7) env klt cntlt read_clock_valid [OF Cons.prems(2), of env]
    by (simp add: ev del: if_split split del: if_split)
  have rest: "emit_all ?s1 calls =
     Inr (?s1\<lparr>storage := Some (list_update ?tab1 (unat c)
            \<lparr>eventcount = (cnt + 1) + of_nat (length calls),
             events = Some (take (unat (cnt + 1)) ?arr1 @ map (recorded (ttp_clock ?s1)) calls
                              @ drop (unat (cnt + 1) + length calls) ?arr1)\<rparr>)\<rparr>, [])"
  proof (rule Cons.IH)
    show "ttp_enabled ?s1" using Cons.prems(1) by simp
    show "ttp_clock ?s1 = CLOCK_REALTIME \<or> ttp_clock ?s1 = CLOCK_MONOTONIC"
      using Cons.prems(2) by simp
    show "c < ttp_cpus ?s1" using Cons.prems(3) by simp
    show "storage ?s1 = Some ?tab1" by simp
    show "unat c < length ?tab1" using Cons.prems(5) by simp
    show "?tab1 ! unat c = \<lparr>eventcount = cnt + 1, events = Some ?arr1\<rparr>"
      using Cons.prems(5) by simp
    show "length ?arr1 = unat (max_events ?s1)" using Cons.prems(7) by simp
    show "unat (cnt + 1) + length calls \<le> unat (max_events ?s1)"
      using Cons.prems(8) k1 by simp
    show "\<forall>call \<in> set calls. smp_processor_id (fst call) = c"
      using Cons.prems(9) by simp
  qed
  have tk: "take (Suc ?k) ?arr1 = take ?k arr @ [?ev]"
    using klt Cons.prems(7) by (simp add: take_Suc_conv_app_nth)
  have dr: "drop (Suc ?k + length calls) ?arr1 = drop (Suc ?k + length calls) arr"
    by simp
  have cnt: "cnt + 1 + of_nat (length calls) = cnt + of_nat (length (call # calls))"
    by simp
  show ?case
    using step rest by (simp add: call k1 tk dr add.assoc)
qed

text \<open>
  Claim C1. Capture is armed and a shard is empty. A sequence of calls of \<open>ttp_emit\<close>
  on the cpu of that shard that never finds the shard full (the shard holds \<open>i\<close> records
  before call \<open>i\<close>, so this is: there are at most \<open>max_events\<close> calls) returns without
  a fault and without a log line; afterwards the shard's \<open>eventcount\<close> is the number of
  calls, and its slots \<open>0\<close> to \<open>eventcount - 1\<close> hold the records of the calls in the
  order of the calls, each with the id passed to its call.
\<close>

theorem emit_records_calls_in_order:
  assumes "state_ok s" and "ttp_enabled s"
    and "c < ttp_cpus s"
    and "storage s = Some tab"
    and "eventcount (tab ! unat c) = 0"
    and "length calls \<le> unat (max_events s)"
    and "\<forall>call \<in> set calls. smp_processor_id (fst call) = c"
  shows "\<exists>s' tab' arr'.
           emit_all s calls = Inr (s', []) \<and> ttp_enabled s' \<and>
           storage s' = Some tab' \<and> events (tab' ! unat c) = Some arr' \<and>
           unat (eventcount (tab' ! unat c)) = length calls \<and>
           take (length calls) arr' = map (recorded (ttp_clock s)) calls \<and>
           map event_id (take (length calls) arr') = map snd calls"
proof -
  have len: "length tab = unat (ttp_cpus s)" and all: "list_all (shard_ok (max_events s)) tab"
    and clk: "ttp_clock s = CLOCK_REALTIME \<or> ttp_clock s = CLOCK_MONOTONIC"
    using assms(1,4) by (simp_all add: state_ok_def)
  have c: "unat c < length tab" using assms(3) len by (simp add: word_less_nat_alt)
  then have ok: "shard_ok (max_events s) (tab ! unat c)"
    using all by (simp add: list_all_length)
  then obtain arr where arr: "events (tab ! unat c) = Some arr"
    and larr: "length arr = unat (max_events s)"
    by (auto simp: shard_ok_def split: option.splits)
  have stor: "tab ! unat c = \<lparr>eventcount = 0, events = Some arr\<rparr>"
    using arr assms(5) by (cases "tab ! unat c") simp
  let ?n = "length calls"
  let ?arr' = "take (unat (0::u64)) arr @ map (recorded (ttp_clock s)) calls @ drop (unat (0::u64) + ?n) arr"
  let ?stor' = "\<lparr>eventcount = 0 + of_nat ?n, events = Some ?arr'\<rparr>"
  let ?tab' = "list_update tab (unat c) ?stor'"
  let ?s' = "s\<lparr>storage := Some ?tab'\<rparr>"
  have run: "emit_all s calls = Inr (?s', [])"
    using assms(2) clk assms(3,4) c stor larr _ assms(7)
    by (rule emit_all_appends) (simp add: assms(6))
  have "?n < 2 ^ 32" using assms(6) unsigned_less [of "max_events s", where ?'a = nat]
    by simp
  then have "?n < 2 ^ 64" by (rule less_le_trans) simp
  then have cnt: "unat (of_nat ?n :: u64) = ?n"
    by (simp add: unat_of_nat)
  have ids: "map event_id (map (recorded (ttp_clock s)) calls) = map snd calls"
    by (simp add: recorded_def make_event_def comp_def)
  show ?thesis
    using run assms(2) c cnt ids
    by (intro exI [of _ ?s'] exI [of _ ?tab'] exI [of _ ?arr']) simp
qed

theorem emit_records_calls_in_order_witness:
  "\<exists>s' tab' arr'.
     emit_all armed_empty [(env0 100, 5), (env0 200, 7)] = Inr (s', []) \<and> ttp_enabled s' \<and>
     storage s' = Some tab' \<and> events (tab' ! unat (0::u32)) = Some arr' \<and>
     unat (eventcount (tab' ! unat (0::u32))) = length [(env0 100, 5::u32), (env0 200, 7)] \<and>
     take (length [(env0 100, 5::u32), (env0 200, 7)]) arr'
       = map (recorded (ttp_clock armed_empty)) [(env0 100, 5), (env0 200, 7)] \<and>
     map event_id (take (length [(env0 100, 5::u32), (env0 200, 7)]) arr') = map snd [(env0 100, 5::u32), (env0 200, 7)]"
proof (rule emit_records_calls_in_order)
  show "state_ok armed_empty"
    by (simp add: state_ok_def armed_empty_def shard_ok_def CLOCK_REALTIME_def)
  show "ttp_enabled armed_empty" by (simp add: armed_empty_def)
  show "(0::u32) < ttp_cpus armed_empty" by (simp add: armed_empty_def)
  show "storage armed_empty = Some [\<lparr>eventcount = 0, events = Some [blank, blank, blank, blank]\<rparr>]"
    by (simp add: armed_empty_def)
  show "eventcount ([\<lparr>eventcount = 0, events = Some [blank, blank, blank, blank]\<rparr>] ! unat (0::u32)) = 0"
    by simp
  show "length [(env0 100, 5::u32), (env0 200, 7)] \<le> unat (max_events armed_empty)"
    by (simp add: armed_empty_def)
  show "\<forall>call \<in> set [(env0 100, 5::u32), (env0 200, 7)]. smp_processor_id (fst call) = 0"
    by (simp add: env0_def)
qed

text \<open>
  A call on a full shard changes nothing but \<open>suppress_error\<close>, and so does any
  number of them: the table, with every count and every slot, stays as it is.
\<close>

lemma ttp_emit_full:
  assumes "ttp_enabled s"
    and "ttp_clock s = CLOCK_REALTIME \<or> ttp_clock s = CLOCK_MONOTONIC"
    and "smp_processor_id env < ttp_cpus s"
    and "storage s = Some tab"
    and "unat (smp_processor_id env) < length tab"
    and "ucast (max_events s) \<le> eventcount (tab ! unat (smp_processor_id env))"
  shows "ttp_emit s env ident =
     Inr (s\<lparr>suppress_error := suppress_error s + 1\<rparr>,
          if suppress_error s = 0 then [''Max Events reached''] else [])"
proof -
  have a: "\<not> ttp_cpus s \<le> smp_processor_id env" using assms(3) by (simp add: not_le)
  have c: "\<not> length tab \<le> unat (smp_processor_id env)" using assms(5) by simp
  show ?thesis
    unfolding ttp_emit_def Let_def
    using assms(1,4,6) a c read_clock_valid [OF assms(2), of env]
    by (simp split del: if_split)
qed

lemma emit_all_full:
  assumes "ttp_enabled s"
    and "ttp_clock s = CLOCK_REALTIME \<or> ttp_clock s = CLOCK_MONOTONIC"
    and "c < ttp_cpus s"
    and "storage s = Some tab"
    and "unat c < length tab"
    and "ucast (max_events s) \<le> eventcount (tab ! unat c)"
    and "\<forall>call \<in> set calls. smp_processor_id (fst call) = c"
  shows "\<exists>msgs. emit_all s calls =
     Inr (s\<lparr>suppress_error := suppress_error s + of_nat (length calls)\<rparr>, msgs)"
  using assms
proof (induction calls arbitrary: s)
  case Nil
  then show ?case by simp
next
  case (Cons call calls)
  obtain env ident where call: "call = (env, ident)" by (cases call)
  let ?s1 = "s\<lparr>suppress_error := suppress_error s + 1\<rparr>"
  have env: "smp_processor_id env = c" using Cons.prems(7) call by simp
  have step: "ttp_emit s env ident =
     Inr (?s1, if suppress_error s = 0 then [''Max Events reached''] else [])"
    using Cons.prems(1-6) env by (intro ttp_emit_full) simp_all
  have "\<exists>msgs. emit_all ?s1 calls =
     Inr (?s1\<lparr>suppress_error := suppress_error ?s1 + of_nat (length calls)\<rparr>, msgs)"
    using Cons.prems by (intro Cons.IH) simp_all
  then obtain msgs where rest: "emit_all ?s1 calls =
     Inr (?s1\<lparr>suppress_error := suppress_error ?s1 + of_nat (length calls)\<rparr>, msgs)" ..
  show ?case
    using step rest by (simp add: call add.assoc split del: if_split)
qed

text \<open>
  The first 256 drops on a full shard put the warning into the log once.
\<close>

lemma one_warning_for_256_drops:
  "emit_all armed_full (replicate 256 (env0 0, 9)) =
     Inr (armed_full\<lparr>suppress_error := 0\<rparr>, [''Max Events reached''])"
  by code_simp

text \<open>
  Claim C2, at the input where the code departs from it. A shard with one slot is full,
  capture is armed and nothing has been dropped so far. 257 further calls of \<open>ttp_emit\<close>
  on its cpu leave the table as it is, but the warning is in the log twice: the
  \<open>unsigned char\<close> \<open>suppress_error\<close> is 0 again at the 257th drop.
\<close>

theorem drop_warning_repeats_after_256_drops:
  "emit_all armed_full (replicate 257 (env0 0, 9)) =
     Inr (armed_full\<lparr>suppress_error := 1\<rparr>, [''Max Events reached'', ''Max Events reached''])"
  by code_simp

section \<open>Properties of the command path\<close>

lemma strim_token:
  assumes "tok \<noteq> []" and "\<not> isspace (last tok)" and "\<forall>c \<in> set ws. isspace c"
  shows "fst (strim (tok @ ws)) = tok"
proof -
  have "dropWhile isspace (rev ws @ rev tok) = dropWhile isspace (rev tok)"
    by (rule dropWhile_append2) (use assms(3) in simp)
  also have "\<dots> = rev tok"
    using assms(1,2) by (cases "rev tok") (auto simp: last_rev [symmetric])
  finally show ?thesis by (simp add: strim_def Let_def)
qed

lemma strncmp_same: "strncmp cs cs n = 0"
  by (induction n arbitrary: cs) (simp_all add: Let_def)

lemma isspace_not_NUL: "isspace c \<Longrightarrow> c \<noteq> CHR 0x00"
  by (auto simp: isspace_def)

text \<open>The buffer \<open>input\<close> after \<open>strim\<close> when the user writes a token followed by white space.\<close>

lemma input_of_token:
  assumes "tok \<noteq> []" and "\<not> isspace (last tok)" and "CHR 0x00 \<notin> set tok"
    and "length tok \<le> n" and "\<forall>c \<in> set ws. isspace c"
  shows "fst (strim (takeWhile (\<lambda>c. c \<noteq> CHR 0x00) (take n (tok @ ws)))) = tok"
proof -
  have tk: "take n (tok @ ws) = tok @ take (n - length tok) ws"
    using assms(4) by simp
  have sp: "\<forall>c \<in> set (take (n - length tok) ws). isspace c"
    using assms(5) by (meson in_set_takeD)
  then have "\<forall>c \<in> set (tok @ take (n - length tok) ws). c \<noteq> CHR 0x00"
    using assms(3) isspace_not_NUL by auto
  then have "takeWhile (\<lambda>c. c \<noteq> CHR 0x00) (tok @ take (n - length tok) ws) = tok @ take (n - length tok) ws"
    by (simp only: takeWhile_eq_all_conv)
  then have "takeWhile (\<lambda>c. c \<noteq> CHR 0x00) (take n (tok @ ws)) = tok @ take (n - length tok) ws"
    by (simp only: tk)
  then show ?thesis by (simp only: strim_token [OF assms(1,2) sp])
qed

text \<open>The loop of the reset command sets every count of the table to 0.\<close>

lemma reset_loop_from:
  "length tab = unat n \<Longrightarrow> i \<le> n \<Longrightarrow>
   reset_loop i n tab = Inr (take (unat i) tab @ map (\<lambda>stor. stor\<lparr>eventcount := 0\<rparr>) (drop (unat i) tab))"
proof (induction i n tab rule: reset_loop.induct)
  case (1 i n tab)
  show ?case
  proof (cases "i < n")
    case True
    then have i1: "unat (i + 1) = Suc (unat i)" by (rule word_inc_unat)
    have lt: "unat i < length tab" using True "1.prems"(1) by (simp add: word_less_nat_alt)
    let ?tab1 = "list_update tab (unat i) ((tab ! unat i)\<lparr>eventcount := 0\<rparr>)"
    have le1: "i + 1 \<le> n" using True by (rule inc_le)
    have "reset_loop (i + 1) n ?tab1 =
        Inr (take (unat (i + 1)) ?tab1 @ map (\<lambda>stor. stor\<lparr>eventcount := 0\<rparr>) (drop (unat (i + 1)) ?tab1))"
      using True lt "1.prems"(1) le1 by (intro "1.IH") simp_all
    moreover have "take (Suc (unat i)) ?tab1 = take (unat i) tab @ [(tab ! unat i)\<lparr>eventcount := 0\<rparr>]"
      using lt by (simp add: take_Suc_conv_app_nth)
    moreover have "drop (unat i) tab = tab ! unat i # drop (Suc (unat i)) tab"
      using lt by (simp add: Cons_nth_drop_Suc)
    ultimately show ?thesis
      using True lt by (subst reset_loop.simps) (simp add: i1)
  next
    case False
    then have "i = n" using "1.prems"(2) by simp
    then show ?thesis
      using False "1.prems"(1) by (subst reset_loop.simps) simp
  qed
qed

lemma reset_loop_all:
  "length tab = unat n \<Longrightarrow> reset_loop 0 n tab = Inr (map (\<lambda>stor. stor\<lparr>eventcount := 0\<rparr>) tab)"
  using reset_loop_from [of tab n 0] by simp

lemma strncmp_stop_start: "3 \<le> n \<Longrightarrow> strncmp ''stop'' ''start'' n \<noteq> 0"
proof -
  assume "3 \<le> n"
  then obtain k where "n = Suc (Suc (Suc k))"
    by (metis Suc_le_D numeral_3_eq_3 Suc_le_mono)
  then show ?thesis by (simp add: Let_def)
qed

lemma strncmp_reset_start: "1 \<le> n \<Longrightarrow> strncmp ''reset'' ''start'' n \<noteq> 0"
  by (cases n) (simp_all add: Let_def)

lemma strncmp_reset_stop: "1 \<le> n \<Longrightarrow> strncmp ''reset'' ''stop'' n \<noteq> 0"
  by (cases n) (simp_all add: Let_def)

lemma ttp_write_token:
  assumes "storage s = Some tab"
    and "tok \<noteq> []" and "\<not> isspace (last tok)" and "CHR 0x00 \<notin> set tok"
    and "length tok \<le> MAX_INPUT_SIZE" and "\<forall>c \<in> set ws. isspace c"
    and "data = tok @ ws"
  shows "ttp_write s data True = ttp_command s tab tok (min (length data) MAX_INPUT_SIZE)"
proof -
  let ?len = "if length data > MAX_INPUT_SIZE then MAX_INPUT_SIZE else length data"
  have len: "?len = min (length data) MAX_INPUT_SIZE" by simp
  have "length tok \<le> ?len" using assms(5,7) by simp
  then have "fst (strim (takeWhile (\<lambda>c. c \<noteq> CHR 0x00) (take ?len (tok @ ws)))) = tok"
    using assms(2,3,4,6) by (intro input_of_token)
  then have inp: "fst (strim (takeWhile (\<lambda>c. c \<noteq> CHR 0x00) (take ?len data))) = tok"
    by (simp only: assms(7))
  show ?thesis
    unfolding ttp_write_def Let_def
    by (simp only: assms(1) option.case inp [unfolded len] len simp_thms if_False)
qed

lemma ttp_command_reset:
  assumes "5 \<le> len"
  shows "ttp_command s tab ''reset'' len =
     (if ttp_enabled s then Inr (Inl EINVAL, s, [])
      else case reset_loop 0 (ttp_cpus s) tab of
        Inl f \<Rightarrow> Inl f
      | Inr tab' \<Rightarrow> Inr (Inr len, s\<lparr>storage := Some tab'\<rparr>, [''ttp: Reset event storage'']))"
proof -
  have a: "strncmp ''reset'' ''start'' len \<noteq> 0" using assms by (intro strncmp_reset_start) simp
  have b: "strncmp ''reset'' ''stop'' len \<noteq> 0" using assms by (intro strncmp_reset_stop) simp
  show ?thesis
    unfolding ttp_command_def by (simp only: a b strncmp_same if_False if_True simp_thms)
qed

lemma ttp_command_stop:
  assumes "4 \<le> len"
  shows "ttp_command s tab ''stop'' len = Inr (Inr len, s\<lparr>ttp_enabled := False\<rparr>, [''ttp: Stopped''])"
proof -
  have a: "strncmp ''stop'' ''start'' len \<noteq> 0" using assms by (intro strncmp_stop_start) simp
  show ?thesis
    unfolding ttp_command_def by (simp only: a strncmp_same if_False if_True simp_thms)
qed

lemma ttp_command_start:
  "ttp_command s tab ''start'' len =
     (if ttp_enabled s then Inr (Inl EBUSY, s, [])
      else Inr (Inr len, s\<lparr>ttp_enabled := True\<rparr>, [''ttp: Armed'']))"
  unfolding ttp_command_def by (simp only: strncmp_same if_True simp_thms)


text \<open>
  Claim C5. The table exists and has one storage per counted cpu. The user writes
  \<open>reset\<close>, followed by any white space. While capture is armed the call returns
  \<open>EINVAL\<close> and the globals, so every storage with its count and its slots, stay as they
  are. While capture is stopped every storage's \<open>eventcount\<close> becomes 0 and nothing
  else changes: not \<open>max_events\<close>, not the arrays \<open>events\<close> and their contents, not
  \<open>ttp_enabled\<close>, not \<open>ttp_clock\<close>.
\<close>

theorem reset_rejected_armed_zeroes_counts_disarmed:
  assumes "storage s = Some tab" and "length tab = unat (ttp_cpus s)"
    and "\<forall>c \<in> set ws. isspace c"
  shows "ttp_write s (''reset'' @ ws) True =
     (if ttp_enabled s then Inr (Inl EINVAL, s, [])
      else Inr (Inr (min (length (''reset'' @ ws)) MAX_INPUT_SIZE),
                s\<lparr>storage := Some (map (\<lambda>stor. stor\<lparr>eventcount := 0\<rparr>) tab)\<rparr>,
                [''ttp: Reset event storage'']))"
proof -
  let ?len = "min (length (''reset'' @ ws)) MAX_INPUT_SIZE"
  have w: "ttp_write s (''reset'' @ ws) True = ttp_command s tab ''reset'' ?len"
    using assms(1) _ _ _ _ assms(3) refl
    by (rule ttp_write_token) (simp_all add: isspace_def MAX_INPUT_SIZE_def)
  have l: "5 \<le> ?len" by (simp add: MAX_INPUT_SIZE_def)
  show ?thesis
    unfolding w ttp_command_reset [OF l] reset_loop_all [OF assms(2)]
    by simp
qed

theorem reset_rejected_armed_zeroes_counts_disarmed_witness:
  "ttp_write armed_full (''reset'' @ [CHR 0x0A]) True = Inr (Inl EINVAL, armed_full, []) \<and>
   ttp_write stopped_two (''reset'' @ [CHR 0x0A]) True =
     Inr (Inr 6, stopped_two_reset, [''ttp: Reset event storage''])"
proof -
  have sp: "\<forall>c \<in> set [CHR 0x0A]. isspace c" by (simp add: isspace_def)
  have 1: "ttp_write armed_full (''reset'' @ [CHR 0x0A]) True =
     (if ttp_enabled armed_full then Inr (Inl EINVAL, armed_full, [])
      else Inr (Inr (min (length (''reset'' @ [CHR 0x0A])) MAX_INPUT_SIZE),
                armed_full\<lparr>storage := Some (map (\<lambda>stor. stor\<lparr>eventcount := 0\<rparr>)
                  [\<lparr>eventcount = 1, events = Some [\<lparr>event_id = 5, abstime = 100\<rparr>]\<rparr>])\<rparr>,
                [''ttp: Reset event storage'']))"
    by (rule reset_rejected_armed_zeroes_counts_disarmed [OF _ _ sp])
      (simp_all add: armed_full_def)
  have 2: "ttp_write stopped_two (''reset'' @ [CHR 0x0A]) True =
     (if ttp_enabled stopped_two then Inr (Inl EINVAL, stopped_two, [])
      else Inr (Inr (min (length (''reset'' @ [CHR 0x0A])) MAX_INPUT_SIZE),
                stopped_two\<lparr>storage := Some (map (\<lambda>stor. stor\<lparr>eventcount := 0\<rparr>)
                  [\<lparr>eventcount = 2,
                    events = Some [\<lparr>event_id = 5, abstime = 100\<rparr>, \<lparr>event_id = 7, abstime = 200\<rparr>,
                                   blank, blank]\<rparr>,
                   \<lparr>eventcount = 0, events = Some [blank, blank, blank, blank]\<rparr>])\<rparr>,
                [''ttp: Reset event storage'']))"
    by (rule reset_rejected_armed_zeroes_counts_disarmed [OF _ _ sp])
      (simp_all add: stopped_two_def)
  show ?thesis
    unfolding 1 2
    by (simp add: armed_full_def stopped_two_def stopped_two_reset_def MAX_INPUT_SIZE_def)
qed

text \<open>
  Claim C7. The table exists. The user writes \<open>start\<close> or \<open>stop\<close>, followed by any
  white space. \<open>start\<close> while capture is armed returns \<open>EBUSY\<close> and leaves the globals as
  they are. \<open>stop\<close> returns the number of bytes consumed from any state and leaves
  \<open>ttp_enabled\<close> false; a second \<open>stop\<close> right after it ends in the same state as the
  first.
\<close>

theorem start_busy_when_armed_stop_idempotent:
  assumes "storage s = Some tab" and "\<forall>c \<in> set ws. isspace c" and "\<forall>c \<in> set ws'. isspace c"
  shows "(ttp_enabled s \<longrightarrow> ttp_write s (''start'' @ ws) True = Inr (Inl EBUSY, s, [])) \<and>
         ttp_write s (''stop'' @ ws) True =
           Inr (Inr (min (length (''stop'' @ ws)) MAX_INPUT_SIZE), s\<lparr>ttp_enabled := False\<rparr>, [''ttp: Stopped'']) \<and>
         ttp_write (s\<lparr>ttp_enabled := False\<rparr>) (''stop'' @ ws') True =
           Inr (Inr (min (length (''stop'' @ ws')) MAX_INPUT_SIZE), s\<lparr>ttp_enabled := False\<rparr>, [''ttp: Stopped''])"
proof -
  have a: "ttp_write s (''start'' @ ws) True
      = ttp_command s tab ''start'' (min (length (''start'' @ ws)) MAX_INPUT_SIZE)"
    using assms(1) _ _ _ _ assms(2) refl
    by (rule ttp_write_token) (simp_all add: isspace_def MAX_INPUT_SIZE_def)
  have b: "ttp_write s' (''stop'' @ w) True
      = ttp_command s' tab ''stop'' (min (length (''stop'' @ w)) MAX_INPUT_SIZE)"
    if "storage s' = Some tab" and "\<forall>c \<in> set w. isspace c" for s' w
    using that(1) _ _ _ _ that(2) refl
    by (rule ttp_write_token) (simp_all add: isspace_def MAX_INPUT_SIZE_def)
  have l: "4 \<le> min (length (''stop'' @ w)) MAX_INPUT_SIZE" for w :: string
    by (simp add: MAX_INPUT_SIZE_def)
  have 1: "ttp_enabled s \<longrightarrow> ttp_write s (''start'' @ ws) True = Inr (Inl EBUSY, s, [])"
    unfolding a ttp_command_start by simp
  have 2: "ttp_write s (''stop'' @ ws) True =
           Inr (Inr (min (length (''stop'' @ ws)) MAX_INPUT_SIZE), s\<lparr>ttp_enabled := False\<rparr>, [''ttp: Stopped''])"
    unfolding b [OF assms(1,2)] ttp_command_stop [OF l] ..
  have 3: "ttp_write (s\<lparr>ttp_enabled := False\<rparr>) (''stop'' @ ws') True =
           Inr (Inr (min (length (''stop'' @ ws')) MAX_INPUT_SIZE), s\<lparr>ttp_enabled := False\<rparr>, [''ttp: Stopped''])"
  proof -
    have st: "storage (s\<lparr>ttp_enabled := False\<rparr>) = Some tab" using assms(1) by simp
    show ?thesis
      unfolding b [OF st assms(3)] ttp_command_stop [OF l] by simp
  qed
  show ?thesis using 1 2 3 by blast
qed

theorem start_busy_when_armed_stop_idempotent_witness:
  "ttp_enabled armed_full \<and>
   ttp_write armed_full (''start'' @ [CHR 0x0A]) True = Inr (Inl EBUSY, armed_full, []) \<and>
   ttp_write armed_full (''stop'' @ [CHR 0x0A]) True =
     Inr (Inr 5, armed_full\<lparr>ttp_enabled := False\<rparr>, [''ttp: Stopped'']) \<and>
   ttp_write (armed_full\<lparr>ttp_enabled := False\<rparr>) ''stop'' True =
     Inr (Inr 4, armed_full\<lparr>ttp_enabled := False\<rparr>, [''ttp: Stopped''])"
proof -
  have st: "storage armed_full = Some [\<lparr>eventcount = 1, events = Some [\<lparr>event_id = 5, abstime = 100\<rparr>]\<rparr>]"
    by (simp add: armed_full_def)
  have sp: "\<forall>c \<in> set [CHR 0x0A]. isspace c" by (simp add: isspace_def)
  have no: "\<forall>c \<in> set []. isspace c" by simp
  have en: "ttp_enabled armed_full" by (simp add: armed_full_def)
  note inst = start_busy_when_armed_stop_idempotent [OF st sp no]
  have 1: "ttp_write armed_full (''start'' @ [CHR 0x0A]) True = Inr (Inl EBUSY, armed_full, [])"
    using inst en by blast
  have 2: "ttp_write armed_full (''stop'' @ [CHR 0x0A]) True =
     Inr (Inr (min (length (''stop'' @ [CHR 0x0A])) MAX_INPUT_SIZE), armed_full\<lparr>ttp_enabled := False\<rparr>,
          [''ttp: Stopped''])"
    using inst by blast
  have 3: "ttp_write (armed_full\<lparr>ttp_enabled := False\<rparr>) (''stop'' @ []) True =
     Inr (Inr (min (length (''stop'' @ [])) MAX_INPUT_SIZE), armed_full\<lparr>ttp_enabled := False\<rparr>,
          [''ttp: Stopped''])"
    using inst by blast
  have 4: "ttp_write (armed_full\<lparr>ttp_enabled := False\<rparr>) ''stop'' True =
     Inr (Inr (min (length (''stop'' @ [])) MAX_INPUT_SIZE), armed_full\<lparr>ttp_enabled := False\<rparr>,
          [''ttp: Stopped''])"
    using 3 by (simp only: append_Nil2)
  show ?thesis
    unfolding 1 2 4 using en by (simp add: MAX_INPUT_SIZE_def)
qed

text \<open>
  Claim C4, at an input where the code departs from it. Capture is stopped and the user
  writes the one byte \<open>s\<close>. Every comparison is bounded by \<open>len\<close>, here 1, so the
  comparison with \<open>start\<close> finds the strings equal: the call arms capture and returns 1.
\<close>

theorem prefix_of_start_arms:
  "ttp_write stopped_two ''s'' True = Inr (Inr 1, stopped_two\<lparr>ttp_enabled := True\<rparr>, [''ttp: Armed''])"
  by code_simp

lemma empty_write_arms:
  "ttp_write stopped_two [] True = Inr (Inr 0, stopped_two\<lparr>ttp_enabled := True\<rparr>, [''ttp: Armed''])"
  by code_simp

section \<open>Properties of the drain path\<close>

text \<open>A formatted line has at most 43 characters, so \<open>snprintf\<close> never cuts it to fit \<open>tmp\<close>.\<close>

lemma dec_length: "n < 10 ^ Suc k \<Longrightarrow> length (dec n) \<le> Suc k"
proof (induction k arbitrary: n)
  case 0
  then show ?case by (subst dec.simps) simp
next
  case (Suc k)
  show ?case
  proof (cases "n < 10")
    case True
    then show ?thesis by (subst dec.simps) simp
  next
    case False
    have "n div 10 < 10 ^ Suc k" using Suc.prems by (simp add: less_mult_imp_div_less)
    then have "length (dec (n div 10)) \<le> Suc k" by (rule Suc.IH)
    then show ?thesis using False by (subst dec.simps) simp
  qed
qed

lemma dec_u32_length: "length (dec (unat (x::u32))) \<le> 10"
proof -
  have "unat x < 2 ^ 32" using unsigned_less [of x] by simp
  then have "unat x < 10 ^ Suc 9" by simp
  then have "length (dec (unat x)) \<le> Suc 9" by (rule dec_length)
  then show ?thesis by simp
qed

lemma dec_u64_length: "length (dec (unat (x::u64))) \<le> 20"
proof -
  have "unat x < 2 ^ 64" using unsigned_less [of x] by simp
  then have "unat x < 10 ^ Suc 19" by simp
  then have "length (dec (unat x)) \<le> Suc 19" by (rule dec_length)
  then show ?thesis by simp
qed

lemma format_line_length: "length (format_line ident c t) \<le> 43"
  using dec_u32_length [of ident] dec_u32_length [of c] dec_u64_length [of t]
  by (simp add: format_line_def)

lemma format_line_not_empty: "format_line ident c t \<noteq> []"
  by (simp add: format_line_def)

lemma snprintf_fits:
  "snprintf 128 ident c t = (format_line ident c t, length (format_line ident c t))"
  using format_line_length [of ident c t] by (simp add: snprintf_def)

lemma ttp_read_line:
  assumes "storage s = Some tab" and "\<not> ttp_enabled s" and "128 \<le> sz"
    and "ttp_read_again s tab fp = Inr (fp', False)"
    and "events (tab ! unat (cpu fp')) = Some arr"
    and "unat (event fp') < length arr"
  shows "ttp_read s fp sz out_ok =
     Inr (if out_ok
          then Inr (format_line (event_id (arr ! unat (event fp'))) (cpu fp')
                      (abstime (arr ! unat (event fp'))))
          else Inl EINVAL,
          fp'\<lparr>event := event fp' + 1\<rparr>)"
proof -
  have a: "\<not> sz < 128" using assms(3) by simp
  have b: "\<not> length arr \<le> unat (event fp')" using assms(6) by simp
  have c: "\<not> 128 < length (format_line ident c t)" for ident c t
    using format_line_length [of ident c t] by simp
  show ?thesis
    unfolding ttp_read_def Let_def
    using assms(1,2,4,5) a b c by (simp add: snprintf_fits)
qed

lemma ttp_read_eof:
  assumes "storage s = Some tab" and "\<not> ttp_enabled s" and "128 \<le> sz"
    and "ttp_read_again s tab fp = Inr (fp', True)"
  shows "ttp_read s fp sz out_ok = Inr (Inr [], fp')"
proof -
  have a: "\<not> sz < 128" using assms(3) by simp
  show ?thesis
    unfolding ttp_read_def using assms(1,2,4) a by simp
qed

text \<open>
  The loop \<open>again\<close> and \<open>fpos->event++\<close> only move a cursor forward, so a session never
  comes back to a slot it has formatted.
\<close>

lemma again_mono:
  "length tab = unat (ttp_cpus s) \<Longrightarrow> ttp_read_again s tab fp = Inr (fp', b) \<Longrightarrow>
   fp' = fp \<or> unat (cpu fp) < unat (cpu fp')"
proof (induction s tab fp rule: ttp_read_again.induct)
  case (1 s tab fp)
  show ?case
  proof (cases "cpu fp = ttp_cpus s")
    case True
    then show ?thesis using "1.prems"(2) by (subst (asm) ttp_read_again.simps) simp
  next
    case ne: False
    show ?thesis
    proof (cases "length tab \<le> unat (cpu fp)")
      case True
      then show ?thesis using ne "1.prems"(2) by (subst (asm) ttp_read_again.simps) simp
    next
      case inb: False
      show ?thesis
      proof (cases "event fp = eventcount (tab ! unat (cpu fp))")
        case True
        have lt: "cpu fp < ttp_cpus s" using inb "1.prems"(1) by (simp add: word_less_nat_alt)
        then have suc: "unat (cpu fp + 1) = Suc (unat (cpu fp))" by (rule word_inc_unat)
        have "ttp_read_again s tab \<lparr>cpu = cpu fp + 1, event = 0\<rparr> = Inr (fp', b)"
          using ne inb True "1.prems"(2) by (subst (asm) ttp_read_again.simps) simp
        then have "fp' = \<lparr>cpu = cpu fp + 1, event = 0\<rparr> \<or> unat (cpu \<lparr>cpu = cpu fp + 1, event = 0\<rparr>) < unat (cpu fp')"
          using ne inb True "1.prems"(1) by (intro "1.IH") simp_all
        then show ?thesis using suc by auto
      next
        case False
        then show ?thesis using ne inb "1.prems"(2) by (subst (asm) ttp_read_again.simps) simp
      qed
    qed
  qed
qed

lemma again_stops:
  "ttp_read_again s tab fp = Inr (fp', b) \<Longrightarrow>
   (b \<longrightarrow> cpu fp' = ttp_cpus s) \<and>
   (\<not> b \<longrightarrow> cpu fp' \<noteq> ttp_cpus s \<and> unat (cpu fp') < length tab \<and> event fp' \<noteq> eventcount (tab ! unat (cpu fp')))"
proof (induction s tab fp rule: ttp_read_again.induct)
  case (1 s tab fp)
  show ?case
  proof (cases "cpu fp \<noteq> ttp_cpus s \<and> \<not> length tab \<le> unat (cpu fp) \<and> event fp = eventcount (tab ! unat (cpu fp))")
    case True
    then have "ttp_read_again s tab \<lparr>cpu = cpu fp + 1, event = 0\<rparr> = Inr (fp', b)"
      using "1.prems" by (subst (asm) ttp_read_again.simps) simp
    then show ?thesis using True by (intro "1.IH") simp_all
  next
    case False
    then show ?thesis using "1.prems"
      by (subst (asm) ttp_read_again.simps) (auto split: if_splits)
  qed
qed

lemma fpos_less_trans: "fpos_less a b \<Longrightarrow> fpos_less b c \<Longrightarrow> fpos_less a c"
  by (auto simp: fpos_less_def)

lemma fpos_less_irrefl: "\<not> fpos_less a a"
  by (simp add: fpos_less_def)

lemma state_ok_shard:
  assumes "state_ok s" and "storage s = Some tab" and "i < length tab"
  shows "\<exists>arr. events (tab ! i) = Some arr \<and> length arr = unat (max_events s)
           \<and> unat (eventcount (tab ! i)) \<le> length arr"
proof -
  have "shard_ok (max_events s) (tab ! i)"
    using assms by (simp add: state_ok_def list_all_length)
  then show ?thesis
    by (auto simp: shard_ok_def word_le_nat_alt unat_ucast_u32_u64 split: option.splits)
qed

lemma state_ok_length: "state_ok s \<Longrightarrow> storage s = Some tab \<Longrightarrow> length tab = unat (ttp_cpus s)"
  by (simp add: state_ok_def)

lemma slot_advance:
  assumes "unat (event slot) < unat (max_events s)"
  shows "fpos_less slot (slot\<lparr>event := event slot + 1\<rparr>)"
proof -
  have "event slot < ucast (max_events s)"
    using assms by (simp add: word_less_nat_alt unat_ucast_u32_u64)
  then have "unat (event slot + 1) = Suc (unat (event slot))" by (rule word_inc_unat)
  then show ?thesis by (simp add: fpos_less_def)
qed

lemma ttp_read_oob:
  assumes "storage s = Some tab" and "\<not> ttp_enabled s" and "\<not> sz < 128"
    and "ttp_read_again s tab fp = Inr (fp', False)"
    and "events (tab ! unat (cpu fp')) = Some arr"
    and "length arr \<le> unat (event fp')"
  shows "ttp_read s fp sz out_ok = Inl OutOfBounds"
  unfolding ttp_read_def using assms by simp

lemma read_advances:
  assumes "state_ok s" and "ttp_read s fp sz out_ok = Inr (r, fp2)"
  shows "(fp2 = fp \<or> fpos_less fp fp2) \<and>
         (\<forall>slot. read_slot s fp sz = Some slot \<longrightarrow> (slot = fp \<or> fpos_less fp slot) \<and> fpos_less slot fp2)"
proof -
  obtain tab where tab: "storage s = Some tab"
    using assms(1) by (auto simp: state_ok_def split: option.splits)
  have len: "length tab = unat (ttp_cpus s)" using assms(1) tab by (rule state_ok_length)
  show ?thesis
  proof (cases "ttp_enabled s \<or> sz < 128")
    case True
    then show ?thesis using assms(2) tab
      by (auto simp: ttp_read_def read_slot_def split: if_splits)
  next
    case False
    then have ne: "\<not> ttp_enabled s" and big: "\<not> sz < 128" by simp_all
    show ?thesis
    proof (cases "ttp_read_again s tab fp")
      case (Inl f)
      then show ?thesis using assms(2) tab ne big by (simp add: ttp_read_def)
    next
      case (Inr res)
      obtain fp' b where res: "res = (fp', b)" by (cases res)
      have again: "ttp_read_again s tab fp = Inr (fp', b)" using Inr res by simp
      have mono: "fp' = fp \<or> fpos_less fp fp'"
        using again_mono [OF len again] by (auto simp: fpos_less_def)
      show ?thesis
      proof (cases b)
        case True
        then have "fp2 = fp'" using assms(2) tab ne big again by (simp add: ttp_read_def)
        moreover have "read_slot s fp sz = None"
          using tab ne big again True by (simp add: read_slot_def)
        ultimately show ?thesis using mono by simp
      next
        case False
        have inb: "unat (cpu fp') < length tab" using again_stops [OF again] False by simp
        obtain arr where arr: "events (tab ! unat (cpu fp')) = Some arr"
          and larr: "length arr = unat (max_events s)"
          using state_ok_shard [OF assms(1) tab inb] by blast
        have rs: "read_slot s fp sz = Some fp'"
          using tab ne big again False by (simp add: read_slot_def)
        have again': "ttp_read_again s tab fp = Inr (fp', False)" using again False by simp
        have in_arr: "unat (event fp') < length arr"
        proof (rule ccontr)
          assume "\<not> unat (event fp') < length arr"
          then have "length arr \<le> unat (event fp')" by simp
          then have "ttp_read s fp sz out_ok = Inl OutOfBounds"
            by (rule ttp_read_oob [OF tab ne big again' arr])
          then show False using assms(2) by simp
        qed
        have big': "128 \<le> sz" using big by simp
        have fp2: "fp2 = fp'\<lparr>event := event fp' + 1\<rparr>"
          using ttp_read_line [OF tab ne big' again' arr in_arr, of out_ok] assms(2) by simp
        have adv: "fpos_less fp' fp2"
          unfolding fp2 using in_arr larr by (intro slot_advance) simp
        have "fp2 = fp \<or> fpos_less fp fp2"
          using mono adv fpos_less_trans by blast
        then show ?thesis using rs mono adv by simp
      qed
    qed
  qed
qed

lemma session_slots_beyond:
  "state_ok s \<Longrightarrow> slot \<in> set (session_slots s fp rs) \<Longrightarrow> slot = fp \<or> fpos_less fp slot"
proof (induction rs arbitrary: fp slot)
  case Nil
  then show ?case by simp
next
  case (Cons r rs)
  obtain sz out_ok where r: "r = (sz, out_ok)" by (cases r)
  show ?case
  proof (cases "ttp_read s fp sz out_ok")
    case (Inl f)
    then show ?thesis using Cons.prems(2) r by simp
  next
    case (Inr res)
    obtain res1 fp2 where res: "res = (res1, fp2)" by (cases res)
    have rd: "ttp_read s fp sz out_ok = Inr (res1, fp2)" using Inr res by simp
    note adv = read_advances [OF Cons.prems(1) rd]
    have later: "x = fp \<or> fpos_less fp x" if "x \<in> set (session_slots s fp2 rs)" for x
    proof -
      have "x = fp2 \<or> fpos_less fp2 x" using Cons.prems(1) that by (rule Cons.IH)
      then show ?thesis using adv fpos_less_trans by blast
    qed
    show ?thesis
    proof (cases "read_slot s fp sz")
      case None
      then have "slot \<in> set (session_slots s fp2 rs)" using Cons.prems(2) r rd by simp
      then show ?thesis by (rule later)
    next
      case (Some sl)
      then have "slot = sl \<or> slot \<in> set (session_slots s fp2 rs)"
        using Cons.prems(2) r rd by simp
      then show ?thesis using adv Some later by auto
    qed
  qed
qed

text \<open>
  Claim C10. Capture is stopped, the buffer is large enough, and a call of \<open>ttp_read\<close>
  gets as far as formatting the record of a slot of the array. If \<open>copy_to_user\<close> then
  fails, the call returns \<open>EINVAL\<close> and leaves the cursor one event behind that slot.
  Whatever calls of \<open>ttp_read\<close> follow in the session while the globals stay as they
  are, none of them formats that slot again.
\<close>

theorem failed_copy_still_advances_cursor:
  assumes "state_ok s" and "\<not> ttp_enabled s" and "128 \<le> sz" and "storage s = Some tab"
    and "ttp_read_again s tab fp = Inr (slot, False)"
    and "unat (event slot) < unat (max_events s)"
  shows "ttp_read s fp sz False = Inr (Inl EINVAL, slot\<lparr>event := event slot + 1\<rparr>) \<and>
         slot \<notin> set (session_slots s (slot\<lparr>event := event slot + 1\<rparr>) rs)"
proof -
  have inb: "unat (cpu slot) < length tab" using again_stops [OF assms(5)] by simp
  obtain arr where arr: "events (tab ! unat (cpu slot)) = Some arr"
    and larr: "length arr = unat (max_events s)"
    using state_ok_shard [OF assms(1,4) inb] by blast
  have rd: "ttp_read s fp sz False = Inr (Inl EINVAL, slot\<lparr>event := event slot + 1\<rparr>)"
    using ttp_read_line [OF assms(4,2,3,5) arr, of False] assms(6) larr by simp
  have adv: "fpos_less slot (slot\<lparr>event := event slot + 1\<rparr>)"
    using assms(6) by (rule slot_advance)
  have "slot \<notin> set (session_slots s (slot\<lparr>event := event slot + 1\<rparr>) rs)"
  proof
    assume "slot \<in> set (session_slots s (slot\<lparr>event := event slot + 1\<rparr>) rs)"
    then have "slot = slot\<lparr>event := event slot + 1\<rparr> \<or> fpos_less (slot\<lparr>event := event slot + 1\<rparr>) slot"
      using assms(1) by (intro session_slots_beyond)
    then have "fpos_less slot slot"
    proof
      assume "slot = slot\<lparr>event := event slot + 1\<rparr>"
      then show ?thesis using adv by simp
    next
      assume "fpos_less (slot\<lparr>event := event slot + 1\<rparr>) slot"
      with adv show ?thesis by (rule fpos_less_trans)
    qed
    then show False by (simp add: fpos_less_irrefl)
  qed
  then show ?thesis using rd by simp
qed

theorem failed_copy_still_advances_cursor_witness:
  "ttp_read stopped_two \<lparr>cpu = 0, event = 0\<rparr> 128 False
     = Inr (Inl EINVAL, \<lparr>cpu = 0, event = 0\<rparr>\<lparr>event := event \<lparr>cpu = 0, event = 0\<rparr> + 1\<rparr>) \<and>
   \<lparr>cpu = 0, event = 0\<rparr> \<notin> set (session_slots stopped_two
       (\<lparr>cpu = 0, event = 0\<rparr>\<lparr>event := event \<lparr>cpu = 0, event = 0\<rparr> + 1\<rparr>)
       [(128, True), (128, True), (128, True)])"
proof (rule failed_copy_still_advances_cursor)
  show "state_ok stopped_two"
    by (simp add: state_ok_def stopped_two_def shard_ok_def CLOCK_REALTIME_def)
  show "\<not> ttp_enabled stopped_two" by (simp add: stopped_two_def)
  show "(128::nat) \<le> 128" by simp
  show "storage stopped_two = Some [\<lparr>eventcount = 2,
                        events = Some [\<lparr>event_id = 5, abstime = 100\<rparr>, \<lparr>event_id = 7, abstime = 200\<rparr>,
                                       blank, blank]\<rparr>,
                      \<lparr>eventcount = 0, events = Some [blank, blank, blank, blank]\<rparr>]"
    by (simp add: stopped_two_def)
  show "ttp_read_again stopped_two [\<lparr>eventcount = 2,
                        events = Some [\<lparr>event_id = 5, abstime = 100\<rparr>, \<lparr>event_id = 7, abstime = 200\<rparr>,
                                       blank, blank]\<rparr>,
                      \<lparr>eventcount = 0, events = Some [blank, blank, blank, blank]\<rparr>]
          \<lparr>cpu = 0, event = 0\<rparr> = Inr (\<lparr>cpu = 0, event = 0\<rparr>, False)"
    by (subst ttp_read_again.simps) (simp add: stopped_two_def)
  show "unat (event \<lparr>cpu = 0, event = 0\<rparr>) < unat (max_events stopped_two)"
    by (simp add: stopped_two_def)
qed

text \<open>
  Claim C6. The table exists. A call of \<open>ttp_read\<close> while capture is armed returns
  \<open>EBUSY\<close>, whatever the storages hold and whatever the size of the buffer; a call while
  capture is stopped with a buffer of less than 128 bytes returns \<open>ENOSPC\<close>. Either way
  no byte is handed to the user and the cursor of the file stays as it is.
\<close>

theorem read_rejected_armed_or_undersized:
  assumes "storage s = Some tab" and "ttp_enabled s \<or> sz < 128"
  shows "ttp_read s fp sz out_ok = Inr (Inl (if ttp_enabled s then EBUSY else ENOSPC), fp)"
  using assms by (auto simp: ttp_read_def)

theorem read_rejected_armed_or_undersized_witness:
  "ttp_read armed_full \<lparr>cpu = 0, event = 0\<rparr> 4096 True = Inr (Inl EBUSY, \<lparr>cpu = 0, event = 0\<rparr>) \<and>
   ttp_read armed_full \<lparr>cpu = 0, event = 0\<rparr> 16 True = Inr (Inl EBUSY, \<lparr>cpu = 0, event = 0\<rparr>) \<and>
   ttp_read stopped_two \<lparr>cpu = 0, event = 1\<rparr> 127 True = Inr (Inl ENOSPC, \<lparr>cpu = 0, event = 1\<rparr>)"
proof -
  have 1: "ttp_read armed_full \<lparr>cpu = 0, event = 0\<rparr> sz True
      = Inr (Inl (if ttp_enabled armed_full then EBUSY else ENOSPC), \<lparr>cpu = 0, event = 0\<rparr>)" for sz
    by (rule read_rejected_armed_or_undersized) (simp_all add: armed_full_def)
  have 2: "ttp_read stopped_two \<lparr>cpu = 0, event = 1\<rparr> 127 True
      = Inr (Inl (if ttp_enabled stopped_two then EBUSY else ENOSPC), \<lparr>cpu = 0, event = 1\<rparr>)"
    by (rule read_rejected_armed_or_undersized) (simp_all add: stopped_two_def)
  show ?thesis
    unfolding 1 2 by (simp add: armed_full_def stopped_two_def)
qed

text \<open>
  Claim C9, at an interleaving where the code departs from it. Capture is stopped and
  cpu 0 has recorded two events. A session reads the first line, which leaves its cursor
  at \<open>(0, 1)\<close>. The command \<open>reset\<close> sets every \<open>eventcount\<close> to 0. The next call of
  \<open>ttp_read\<close> of the session compares the cursor's event, 1, with the count, 0, for
  equality only, and formats slot 1 of a storage whose count is 0.
\<close>

theorem read_after_reset_formats_slot_beyond_count:
  "ttp_read stopped_two \<lparr>cpu = 0, event = 0\<rparr> 128 True
     = Inr (Inr (''5,0,100'' @ [CHR 0x0A]), \<lparr>cpu = 0, event = 1\<rparr>) \<and>
   ttp_write stopped_two ''reset'' True
     = Inr (Inr 5, stopped_two_reset, [''ttp: Reset event storage'']) \<and>
   map eventcount (the (storage stopped_two_reset)) = [0, 0] \<and>
   read_slot stopped_two_reset \<lparr>cpu = 0, event = 1\<rparr> 128 = Some \<lparr>cpu = 0, event = 1\<rparr> \<and>
   ttp_read stopped_two_reset \<lparr>cpu = 0, event = 1\<rparr> 128 True
     = Inr (Inr (''7,0,200'' @ [CHR 0x0A]), \<lparr>cpu = 0, event = 2\<rparr>)"
  by code_simp

lemma read_after_reset_runs_off_the_array:
  "read_all stopped_two_reset \<lparr>cpu = 0, event = 1\<rparr> [(128, True), (128, True), (128, True), (128, True)]
     = Inl OutOfBounds"
  by code_simp

text \<open>
  The lines a session still has to deliver from its cursor on; the loop \<open>again\<close> keeps
  them and one call of \<open>ttp_read\<close> delivers the first of them.
\<close>

lemma lines_from_end: "\<not> c < length tab \<Longrightarrow> lines_from tab c e = []"
  by (simp add: lines_from_def)

lemma lines_from_step:
  "c < length tab \<Longrightarrow> length (shard_lines c (tab ! c)) \<le> e \<Longrightarrow>
   lines_from tab c e = lines_from tab (Suc c) 0"
  by (simp add: lines_from_def upt_conv_Cons)

lemma lines_from_head:
  "c < length tab \<Longrightarrow> e < length (shard_lines c (tab ! c)) \<Longrightarrow>
   lines_from tab c e = shard_lines c (tab ! c) ! e # lines_from tab c (Suc e)"
  by (simp add: lines_from_def Cons_nth_drop_Suc)

lemma all_lines_from: "storage s = Some tab \<Longrightarrow> all_lines s = lines_from tab 0 0"
  by (cases tab) (simp_all add: all_lines_def lines_from_def upt_conv_Cons del: upt_Suc)

lemma shard_lines_length:
  "events stor = Some arr \<Longrightarrow> unat (eventcount stor) \<le> length arr \<Longrightarrow>
   length (shard_lines i stor) = unat (eventcount stor)"
  by (simp add: shard_lines_def)

lemma shard_lines_nth:
  "events stor = Some arr \<Longrightarrow> unat (eventcount stor) \<le> length arr \<Longrightarrow> e < unat (eventcount stor) \<Longrightarrow>
   shard_lines i stor ! e = format_line (event_id (arr ! e)) (of_nat i) (abstime (arr ! e))"
  by (simp add: shard_lines_def)

lemma again_spec:
  assumes "state_ok s" and "storage s = Some tab" and "cursor_ok s tab fp"
  shows "\<exists>fp' b. ttp_read_again s tab fp = Inr (fp', b) \<and>
           lines_from tab (unat (cpu fp')) (unat (event fp')) = lines_from tab (unat (cpu fp)) (unat (event fp)) \<and>
           (if b then cpu fp' = ttp_cpus s
            else cpu fp' < ttp_cpus s \<and> event fp' < eventcount (tab ! unat (cpu fp')))"
  using assms
proof (induction s tab fp rule: ttp_read_again.induct)
  case (1 s tab fp)
  have len: "length tab = unat (ttp_cpus s)" using "1.prems"(1,2) by (rule state_ok_length)
  show ?case
  proof (cases "cpu fp = ttp_cpus s")
    case True
    then have "ttp_read_again s tab fp = Inr (fp, True)" by (subst ttp_read_again.simps) simp
    then show ?thesis using True by (intro exI [of _ fp] exI [of _ True]) simp
  next
    case ne: False
    then have lt: "cpu fp < ttp_cpus s" and le: "event fp \<le> eventcount (tab ! unat (cpu fp))"
      using "1.prems"(3) by (simp_all add: cursor_ok_def)
    have inb: "unat (cpu fp) < length tab" using lt len by (simp add: word_less_nat_alt)
    then have inb': "\<not> length tab \<le> unat (cpu fp)" by simp
    obtain arr where arr: "events (tab ! unat (cpu fp)) = Some arr"
      and cnt: "unat (eventcount (tab ! unat (cpu fp))) \<le> length arr"
      using state_ok_shard [OF "1.prems"(1,2) inb] by blast
    show ?thesis
    proof (cases "event fp = eventcount (tab ! unat (cpu fp))")
      case True
      let ?next = "\<lparr>cpu = cpu fp + 1, event = 0\<rparr>"
      have suc: "unat (cpu fp + 1) = Suc (unat (cpu fp))" using lt by (rule word_inc_unat)
      have "cpu fp + 1 \<le> ttp_cpus s" using lt by (rule inc_le)
      then have ok: "cursor_ok s tab ?next" by (auto simp: cursor_ok_def)
      have "\<exists>fp' b. ttp_read_again s tab ?next = Inr (fp', b) \<and>
           lines_from tab (unat (cpu fp')) (unat (event fp')) = lines_from tab (unat (cpu ?next)) (unat (event ?next)) \<and>
           (if b then cpu fp' = ttp_cpus s
            else cpu fp' < ttp_cpus s \<and> event fp' < eventcount (tab ! unat (cpu fp')))"
        using ne inb' True "1.prems"(1,2) ok by (intro "1.IH") simp_all
      moreover have "ttp_read_again s tab fp = ttp_read_again s tab ?next"
        using ne inb' True by (subst ttp_read_again.simps) simp
      moreover have "lines_from tab (unat (cpu fp)) (unat (event fp)) = lines_from tab (Suc (unat (cpu fp))) 0"
        using inb True shard_lines_length [OF arr cnt] by (intro lines_from_step) simp_all
      ultimately show ?thesis by (simp add: suc)
    next
      case False
      then have "ttp_read_again s tab fp = Inr (fp, False)"
        using ne inb' by (subst ttp_read_again.simps) simp
      moreover have "event fp < eventcount (tab ! unat (cpu fp))" using le False by simp
      ultimately show ?thesis using lt by (intro exI [of _ fp] exI [of _ False]) simp
    qed
  qed
qed

lemma read_step:
  assumes "state_ok s" and "storage s = Some tab" and "\<not> ttp_enabled s" and "128 \<le> sz"
    and "cursor_ok s tab fp"
  shows "\<exists>fp2. ttp_read s fp sz True =
            Inr (Inr (case lines_from tab (unat (cpu fp)) (unat (event fp)) of [] \<Rightarrow> [] | l # ls \<Rightarrow> l), fp2) \<and>
          cursor_ok s tab fp2 \<and>
          lines_from tab (unat (cpu fp2)) (unat (event fp2)) = tl (lines_from tab (unat (cpu fp)) (unat (event fp)))"
proof -
  have len: "length tab = unat (ttp_cpus s)" using assms(1,2) by (rule state_ok_length)
  obtain fp' b where again: "ttp_read_again s tab fp = Inr (fp', b)"
    and rem: "lines_from tab (unat (cpu fp')) (unat (event fp')) = lines_from tab (unat (cpu fp)) (unat (event fp))"
    and stop: "if b then cpu fp' = ttp_cpus s
               else cpu fp' < ttp_cpus s \<and> event fp' < eventcount (tab ! unat (cpu fp'))"
    using again_spec [OF assms(1,2,5)] by blast
  show ?thesis
  proof (cases b)
    case True
    then have c: "cpu fp' = ttp_cpus s" using stop by simp
    have e: "lines_from tab (unat (cpu fp')) (unat (event fp')) = []"
      using c len by (intro lines_from_end) simp
    have "ttp_read s fp sz True = Inr (Inr [], fp')"
      using assms(2,3,4) again True by (intro ttp_read_eof) simp_all
    then show ?thesis
      using c e rem by (intro exI [of _ fp']) (simp add: cursor_ok_def)
  next
    case False
    then have lt: "cpu fp' < ttp_cpus s" and elt: "event fp' < eventcount (tab ! unat (cpu fp'))"
      using stop by simp_all
    have inb: "unat (cpu fp') < length tab" using lt len by (simp add: word_less_nat_alt)
    obtain arr where arr: "events (tab ! unat (cpu fp')) = Some arr"
      and cnt: "unat (eventcount (tab ! unat (cpu fp'))) \<le> length arr"
      using state_ok_shard [OF assms(1,2) inb] by blast
    have e: "unat (event fp') < unat (eventcount (tab ! unat (cpu fp')))"
      using elt by (simp add: word_less_nat_alt)
    then have in_arr: "unat (event fp') < length arr" using cnt by simp
    let ?line = "format_line (event_id (arr ! unat (event fp'))) (cpu fp') (abstime (arr ! unat (event fp')))"
    let ?fp2 = "fp'\<lparr>event := event fp' + 1\<rparr>"
    have again': "ttp_read_again s tab fp = Inr (fp', False)" using again False by simp
    have rd: "ttp_read s fp sz True = Inr (Inr ?line, ?fp2)"
      using ttp_read_line [OF assms(2,3,4) again' arr in_arr, of True] by simp
    have suc: "unat (event fp' + 1) = Suc (unat (event fp'))" using elt by (rule word_inc_unat)
    have "event fp' + 1 \<le> eventcount (tab ! unat (cpu fp'))" using elt by (rule inc_le)
    then have ok: "cursor_ok s tab ?fp2" using lt by (simp add: cursor_ok_def)
    have nth: "shard_lines (unat (cpu fp')) (tab ! unat (cpu fp')) ! unat (event fp') = ?line"
      using shard_lines_nth [OF arr cnt e, of "unat (cpu fp')"] by simp
    have "lines_from tab (unat (cpu fp')) (unat (event fp'))
        = ?line # lines_from tab (unat (cpu fp')) (Suc (unat (event fp')))"
      using lines_from_head [OF inb, of "unat (event fp')"] shard_lines_length [OF arr cnt] e nth
      by simp
    then have hd: "lines_from tab (unat (cpu fp)) (unat (event fp))
        = ?line # lines_from tab (unat (cpu ?fp2)) (unat (event ?fp2))"
      using rem suc by simp
    show ?thesis
      using rd ok hd by (intro exI [of _ ?fp2]) simp
  qed
qed

lemma read_all_lines:
  assumes "state_ok s" and "storage s = Some tab" and "\<not> ttp_enabled s"
    and "\<forall>r \<in> set rs. 128 \<le> fst r \<and> snd r"
    and "cursor_ok s tab fp"
  shows "\<exists>fp'. read_all s fp rs =
     Inr (map Inr (take (length rs) (lines_from tab (unat (cpu fp)) (unat (event fp))))
            @ replicate (length rs - length (lines_from tab (unat (cpu fp)) (unat (event fp)))) (Inr []),
          fp')"
  using assms(4,5)
proof (induction rs arbitrary: fp)
  case Nil
  then show ?case by simp
next
  case (Cons r rs)
  obtain sz out_ok where r: "r = (sz, out_ok)" by (cases r)
  have sz: "128 \<le> sz" and ok: "out_ok" using Cons.prems(1) r by simp_all
  let ?rem = "lines_from tab (unat (cpu fp)) (unat (event fp))"
  obtain fp2 where rd: "ttp_read s fp sz True = Inr (Inr (case ?rem of [] \<Rightarrow> [] | l # ls \<Rightarrow> l), fp2)"
    and ok2: "cursor_ok s tab fp2"
    and rem2: "lines_from tab (unat (cpu fp2)) (unat (event fp2)) = tl ?rem"
    using read_step [OF assms(1,2,3) sz Cons.prems(2)] by blast
  have "\<exists>fp'. read_all s fp2 rs =
     Inr (map Inr (take (length rs) (lines_from tab (unat (cpu fp2)) (unat (event fp2))))
            @ replicate (length rs - length (lines_from tab (unat (cpu fp2)) (unat (event fp2)))) (Inr []),
          fp')"
    using Cons.prems(1) ok2 by (intro Cons.IH) simp_all
  then obtain fp' where rest: "read_all s fp2 rs =
     Inr (map Inr (take (length rs) (tl ?rem)) @ replicate (length rs - length (tl ?rem)) (Inr []), fp')"
    using rem2 by auto
  show ?case
  proof (cases ?rem)
    case Nil
    then show ?thesis using rd rest r ok
      by (intro exI [of _ fp']) (simp add: replicate_app_Cons_same)
  next
    case (Cons l ls)
    then show ?thesis using rd rest r ok
      by (intro exI [of _ fp']) simp
  qed
qed

text \<open>
  Claim C3. Capture is stopped and the globals stay as they are. A session starts with
  the cursor \<open>(0, 0)\<close>; every call of \<open>ttp_read\<close> has a buffer of at least 128 bytes that
  can be written. Then the calls return, one line per call, the lines of the storages in
  index order and within a storage the lines of the slots \<open>0\<close> to \<open>eventcount - 1\<close> in slot
  order; a storage without events contributes nothing. Each line is the text
  \<open>"%u,%u,%llu\n"\<close> of the event id, the index of the storage and the time stamp. Once
  the lines are used up every further call returns no bytes.
\<close>

theorem drain_enumerates_lines_in_order:
  assumes "state_ok s" and "\<not> ttp_enabled s"
    and "\<forall>r \<in> set rs. 128 \<le> fst r \<and> snd r"
  shows "\<exists>fp'. read_all s \<lparr>cpu = 0, event = 0\<rparr> rs =
     Inr (map Inr (take (length rs) (all_lines s))
            @ replicate (length rs - length (all_lines s)) (Inr []),
          fp')"
proof -
  obtain tab where tab: "storage s = Some tab"
    using assms(1) by (auto simp: state_ok_def split: option.splits)
  have ok: "cursor_ok s tab \<lparr>cpu = 0, event = 0\<rparr>"
    by (simp add: cursor_ok_def word_neq_0_conv [symmetric])
  show ?thesis
    using read_all_lines [OF assms(1) tab assms(2,3) ok] all_lines_from [OF tab] by simp
qed

theorem drain_enumerates_lines_in_order_witness:
  "\<exists>fp'. read_all stopped_two \<lparr>cpu = 0, event = 0\<rparr> [(128, True), (4096, True), (128, True), (128, True)] =
     Inr (map Inr (take (length [(128::nat, True), (4096, True), (128, True), (128, True)]) (all_lines stopped_two))
            @ replicate (length [(128::nat, True), (4096, True), (128, True), (128, True)] - length (all_lines stopped_two)) (Inr []),
          fp')"
proof (rule drain_enumerates_lines_in_order)
  show "state_ok stopped_two"
    by (simp add: state_ok_def stopped_two_def shard_ok_def CLOCK_REALTIME_def)
  show "\<not> ttp_enabled stopped_two" by (simp add: stopped_two_def)
  show "\<forall>r \<in> set [(128::nat, True), (4096, True), (128, True), (128, True)]. 128 \<le> fst r \<and> snd r"
    by simp
qed

lemma all_lines_stopped_two:
  "all_lines stopped_two = [''5,0,100'' @ [CHR 0x0A], ''7,0,200'' @ [CHR 0x0A]]"
  by code_simp

section \<open>Properties of the initialisation\<close>

text \<open>
  Claim C8, at an input where the code departs from it. There are two cpus; the
  allocations of the table and of the array of cpu 0 succeed, the allocation of the
  array of cpu 1 fails. \<open>ttp_init\<close> returns \<open>ENOMEM\<close> and the table and the array of
  cpu 0 are still allocated.
\<close>

theorem init_failure_keeps_allocations:
  "ttp_init 4 2 True (\<lambda>i. i = 0) None =
     (Some ENOMEM,
      (initial_state 4)\<lparr>ttp_cpus := 2,
        storage := Some [\<lparr>eventcount = 0, events = Some [blank, blank, blank, blank]\<rparr>,
                         \<lparr>eventcount = 0, events = None\<rparr>]\<rparr>,
      [Table, Events 0])"
  by code_simp

lemma exit_releases_all:
  "(case ttp_init 4 2 True (\<lambda>i. True) None of (r, s, live) \<Rightarrow> r = None \<and> ttp_exit s live = [])"
  by code_simp

end
